theory Spec2Isabelle
  imports Main "HOL-Library.AList" "HOL-Library.Multiset"
begin

section \<open>Data model\<close>

text \<open>
  The tables of \<^verbatim>\<open>prisma/schema.prisma\<close> that \<^verbatim>\<open>src/util/leaderboard.ts\<close> reads
  and writes. Prisma's \<^verbatim>\<open>Int\<close> columns are 32-bit integers and arrive in the
  TypeScript as numbers. The code compares them and adds awarded points; a player has at
  most one result per qualifier and server, so the sums stay far below \<open>2^53\<close> and the
  arithmetic is exact. Columns are therefore of type \<^typ>\<open>int\<close>. Player ids are strings.
  The column \<^verbatim>\<open>id\<close> is written \<open>cup_id\<close>, \<open>lb_id\<close>, \<open>q_id\<close> (\<open>id\<close> is the
  identity function of HOL), \<^verbatim>\<open>cupId\<close> is \<open>lb_cupId\<close>, \<open>q_cupId\<close>, \<^verbatim>\<open>public\<close> is
  \<open>is_public\<close>, and \<^verbatim>\<open>qualified\<close> is \<open>qualified'\<close> (a keyword of Isabelle). The
  fields \<open>playerId\<close>, \<open>position\<close> and \<open>points\<close> exist in two tables; those of a
  result are written with the table's name, \<open>QualifierResult.points\<close>.
\<close>

record Cup =
  cup_id :: int
  year :: int
  month :: int
  is_public :: bool
  current :: bool
  name :: string

record Leaderboard =
  lb_id :: int
  lb_cupId :: int

record Qualifier =
  q_id :: int
  version :: int
  q_cupId :: int

record QualifierResult =
  playerId :: string
  position :: int
  points :: int
  qualifierId :: int
  server :: int

record LeaderboardEntry =
  points :: int
  qualified' :: bool
  leaderboardId :: int
  position :: int
  playerId :: string

section \<open>Scoring\<close>

definition POINT_LIMIT_SERVER_ONE :: int where
  "POINT_LIMIT_SERVER_ONE = 6969"

definition POINT_LIMIT_SERVER_TWO :: int where
  "POINT_LIMIT_SERVER_TWO = 4500"

definition getPointsByResult :: "QualifierResult \<Rightarrow> int" where
  "getPointsByResult result =
     (if server result = 1 then
        (if QualifierResult.position result \<ge> 1 \<and> QualifierResult.position result \<le> 3 then 50000
         else if QualifierResult.position result = 4 then 15000
         else if QualifierResult.position result = 5 then 10000
         else if QualifierResult.points result \<ge> POINT_LIMIT_SERVER_ONE then 7500
         else QualifierResult.points result)
      else if server result = 2 then
        (if QualifierResult.position result = 1 then 6500
         else if QualifierResult.position result = 2 then 6000
         else if QualifierResult.position result = 3 then 5500
         else if QualifierResult.points result \<ge> POINT_LIMIT_SERVER_TWO then 5000
         else QualifierResult.points result)
      else 0)"

definition isQualified :: "QualifierResult \<Rightarrow> bool" where
  "isQualified result \<longleftrightarrow>
     QualifierResult.position result \<ge> 1 \<and> QualifierResult.position result \<le> 3 \<and> server result = 1"

text \<open>
  The award table as the specification words it: a fixed bonus by finishing position,
  then the points-based tier of the variant.
\<close>

definition points_tier :: "int \<Rightarrow> int \<Rightarrow> int \<Rightarrow> int" where
  "points_tier limit bonus raw = (if raw \<ge> limit then bonus else raw)"

definition award_table :: "int \<Rightarrow> int \<Rightarrow> int \<Rightarrow> int" where
  "award_table variant pos raw =
     (if variant = 1 then
        (if pos \<in> {1, 2, 3} then 50000
         else if pos = 4 then 15000
         else if pos = 5 then 10000
         else points_tier 6969 7500 raw)
      else if variant = 2 then
        (if pos = 1 then 6500
         else if pos = 2 then 6000
         else if pos = 3 then 5500
         else points_tier 4500 5000 raw)
      else 0)"

section \<open>The accumulator object\<close>

text \<open>
  \<^verbatim>\<open>const map: Record<string, LeaderboardEntry> = {}\<close> is an ordinary object. It
  has own properties, kept in creation order, and the prototype \<^verbatim>\<open>Object.prototype\<close>,
  which the read \<^verbatim>\<open>map[id]\<close> consults when \<open>id\<close> is not an own property.
  The prototype holds the built-in functions listed in \<open>prototype_functions\<close> and the
  accessor \<^verbatim>\<open>__proto__\<close>, whose getter returns the prototype object itself and
  whose setter creates no own property. So a value read from \<^verbatim>\<open>map[id]\<close> is
  \<^item> \<open>Undefined\<close>, and the \<^verbatim>\<open>??\<close> takes the fresh entry;
  \<^item> an object held in an own property: an entry, or a built-in function that an earlier
    iteration has stored (\<open>Object (Entry e)\<close>, \<open>Object Builtin\<close>);
  \<^item> a built-in function inherited from the prototype (\<open>Object Builtin\<close>);
  \<^item> the prototype object (\<open>PrototypeObject\<close>), for the key \<^verbatim>\<open>__proto__\<close>;
  \<^item> a primitive (\<open>Primitive\<close>): the values \<^verbatim>\<open>NaN\<close> and \<^verbatim>\<open>true\<close> that
    the loop itself has written to \<^verbatim>\<open>Object.prototype.points\<close> and
    \<^verbatim>\<open>Object.prototype.qualified\<close> when it ran with the prototype object as entry.
  \<open>ObjectPrototype\<close> records whether these two properties have been written; the
  prototype belongs to the process, not to one call, so it is part of the state that
  \<open>updateLeaderboard\<close> passes on.
\<close>

datatype error = NoCup int | NoLeaderboard | TypeError string | NotAnEntry | ClientError

record ObjectPrototype =
  proto_points :: bool
  proto_qualified :: bool

definition polluted :: "ObjectPrototype \<Rightarrow> bool" where
  "polluted proto \<longleftrightarrow> proto_points proto \<or> proto_qualified proto"

datatype slot = Entry LeaderboardEntry | Builtin

type_synonym objmap = "(string \<times> slot) list"

datatype jsvalue = Undefined | Object slot | PrototypeObject | Primitive

definition prototype_functions :: "string list" where
  "prototype_functions =
     [''constructor'', ''__defineGetter__'', ''__defineSetter__'', ''hasOwnProperty'',
      ''__lookupGetter__'', ''__lookupSetter__'', ''isPrototypeOf'', ''propertyIsEnumerable'',
      ''toString'', ''valueOf'', ''toLocaleString'']"

definition get_property :: "ObjectPrototype \<Rightarrow> objmap \<Rightarrow> string \<Rightarrow> jsvalue" where
  "get_property proto m key =
     (case map_of m key of
        Some s \<Rightarrow> Object s
      | None \<Rightarrow>
          if key = ''__proto__'' then PrototypeObject
          else if key \<in> set prototype_functions then Object Builtin
          else if key = ''points'' \<and> proto_points proto then Primitive
          else if key = ''qualified'' \<and> proto_qualified proto then Primitive
          else Undefined)"

text \<open>The object literal after \<^verbatim>\<open>??\<close>, and the body of the loop on an entry.\<close>

definition new_entry :: "int \<Rightarrow> string \<Rightarrow> LeaderboardEntry" where
  "new_entry lbId key =
     \<lparr>points = 0, qualified' = False, leaderboardId = lbId, position = 0, playerId = key\<rparr>"

definition add_result :: "QualifierResult \<Rightarrow> LeaderboardEntry \<Rightarrow> LeaderboardEntry" where
  "add_result result entry =
     (let entry1 = entry\<lparr>points := points entry + getPointsByResult result\<rparr>
      in if isQualified result then entry1\<lparr>qualified' := True\<rparr> else entry1)"

text \<open>
  One iteration of \<^verbatim>\<open>for (const result of allResultsOfCup)\<close>. The assignment
  \<^verbatim>\<open>map[id] = entry\<close> replaces an own property in place or appends a new one, which
  is \<open>AList.update\<close>.
  \<^item> On a built-in function, \<^verbatim>\<open>entry.points += points\<close> writes \<^verbatim>\<open>NaN\<close> to a
    property of the function, and the function is stored in \<open>map\<close>.
  \<^item> On the prototype object, the same statement writes \<^verbatim>\<open>NaN\<close> to
    \<^verbatim>\<open>Object.prototype.points\<close>, a qualifying result writes \<^verbatim>\<open>true\<close> to
    \<^verbatim>\<open>Object.prototype.qualified\<close>, and \<^verbatim>\<open>map["__proto__"] = entry\<close> runs the
    setter: \<open>map\<close> gets no own property.
  \<^item> On a primitive, \<^verbatim>\<open>entry.points += points\<close> is an assignment to a property of a
    primitive value; the file is an ECMAScript module, hence strict code, and the assignment
    throws a \<^verbatim>\<open>TypeError\<close>.
\<close>

definition group_step ::
  "int \<Rightarrow> ObjectPrototype \<Rightarrow> objmap \<Rightarrow> QualifierResult
     \<Rightarrow> (error + objmap) \<times> ObjectPrototype" where
  "group_step lbId proto m result =
     (let key = QualifierResult.playerId result in
      case get_property proto m key of
        Undefined \<Rightarrow>
          (Inr (AList.update key (Entry (add_result result (new_entry lbId key))) m), proto)
      | Object (Entry entry) \<Rightarrow>
          (Inr (AList.update key (Entry (add_result result entry)) m), proto)
      | Object Builtin \<Rightarrow> (Inr (AList.update key Builtin m), proto)
      | PrototypeObject \<Rightarrow>
          (Inr m, proto\<lparr>proto_points := True,
                         proto_qualified := proto_qualified proto \<or> isQualified result\<rparr>)
      | Primitive \<Rightarrow> (Inl (TypeError key), proto))"

fun group_results ::
  "int \<Rightarrow> ObjectPrototype \<Rightarrow> objmap \<Rightarrow> QualifierResult list
     \<Rightarrow> (error + objmap) \<times> ObjectPrototype" where
  "group_results lbId proto m [] = (Inr m, proto)"
| "group_results lbId proto m (result # rest) =
     (case group_step lbId proto m result of
        (Inl err, proto') \<Rightarrow> (Inl err, proto')
      | (Inr m', proto') \<Rightarrow> group_results lbId proto' m' rest)"

text \<open>
  \<^verbatim>\<open>Object.values(map)\<close> lists the own properties: first the keys that are array
  indices (canonical decimal numerals below \<open>2^32 - 1\<close>) in ascending numeric order, then
  the other keys in creation order.
\<close>

definition digit_value :: "char \<Rightarrow> int option" where
  "digit_value c =
     map_of [(CHR ''0'', 0), (CHR ''1'', 1), (CHR ''2'', 2), (CHR ''3'', 3), (CHR ''4'', 4),
             (CHR ''5'', 5), (CHR ''6'', 6), (CHR ''7'', 7), (CHR ''8'', 8), (CHR ''9'', 9)] c"

fun decimal :: "int \<Rightarrow> string \<Rightarrow> int option" where
  "decimal n [] = Some n"
| "decimal n (c # cs) =
     (case digit_value c of None \<Rightarrow> None | Some d \<Rightarrow> decimal (10 * n + d) cs)"

definition array_index :: "string \<Rightarrow> int option" where
  "array_index key =
     (if key = [] \<or> (hd key = CHR ''0'' \<and> key \<noteq> ''0'') then None
      else (case decimal 0 key of
              None \<Rightarrow> None
            | Some n \<Rightarrow> if n < 4294967295 then Some n else None))"

definition index_of_key :: "string \<times> slot \<Rightarrow> int" where
  "index_of_key p = (case array_index (fst p) of Some n \<Rightarrow> n | None \<Rightarrow> 0)"

definition object_values :: "objmap \<Rightarrow> slot list" where
  "object_values m =
     map snd (sort_key index_of_key (filter (\<lambda>p. array_index (fst p) \<noteq> None) m))
     @ map snd (filter (\<lambda>p. array_index (fst p) = None) m)"

text \<open>
  The values of \<open>map\<close> as leaderboard entries. When a built-in function is among them,
  the comparator of the sort returns \<^verbatim>\<open>NaN\<close> on it and the array handed to
  \<^verbatim>\<open>createMany\<close> holds a value that is no row of the table; the embedding does not
  follow the run through the sort and reports \<open>NotAnEntry\<close> for it.
\<close>

fun entries_of :: "slot list \<Rightarrow> LeaderboardEntry list option" where
  "entries_of [] = Some []"
| "entries_of (Entry e # rest) = map_option ((#) e) (entries_of rest)"
| "entries_of (Builtin # rest) = None"

definition grouped_entries ::
  "int \<Rightarrow> ObjectPrototype \<Rightarrow> QualifierResult list
     \<Rightarrow> (error + LeaderboardEntry list) \<times> ObjectPrototype" where
  "grouped_entries lbId proto results =
     (case group_results lbId proto [] results of
        (Inl err, proto') \<Rightarrow> (Inl err, proto')
      | (Inr m, proto') \<Rightarrow>
          (case entries_of (object_values m) of
             None \<Rightarrow> (Inl NotAnEntry, proto')
           | Some leaderboard \<Rightarrow> (Inr leaderboard, proto')))"

section \<open>Sorting and ranking\<close>

text \<open>
  \<^verbatim>\<open>leaderboard.sort((a, b) => b.points - a.points)\<close>: \<^verbatim>\<open>Array.prototype.sort\<close> is
  stable, so this is the stable sort on the key \<open>- points\<close>.
\<close>

definition sort_leaderboard :: "LeaderboardEntry list \<Rightarrow> LeaderboardEntry list" where
  "sort_leaderboard leaderboard = sort_key (\<lambda>entry. - points entry) leaderboard"

text \<open>
  The ranking loop, with its three variables as arguments; \<^verbatim>\<open>previousAmount\<close> is
  \<open>None\<close> while it is \<^verbatim>\<open>undefined\<close>.
\<close>

fun rank_loop ::
  "int \<Rightarrow> int option \<Rightarrow> int \<Rightarrow> LeaderboardEntry list \<Rightarrow> LeaderboardEntry list" where
  "rank_loop currentRank previousAmount rankCount [] = []"
| "rank_loop currentRank previousAmount rankCount (entry # rest) =
     (if qualified' entry then
        entry\<lparr>position := currentRank\<rparr>
          # rank_loop currentRank (Some (points entry)) (rankCount + 1) rest
      else if previousAmount \<noteq> Some (points entry) then
        entry\<lparr>position := currentRank + rankCount\<rparr>
          # rank_loop (currentRank + rankCount) (Some (points entry)) 1 rest
      else
        entry\<lparr>position := currentRank\<rparr>
          # rank_loop currentRank (Some (points entry)) (rankCount + 1) rest)"

definition rank_leaderboard :: "LeaderboardEntry list \<Rightarrow> LeaderboardEntry list" where
  "rank_leaderboard leaderboard = rank_loop 1 None 0 (sort_leaderboard leaderboard)"

text \<open>
  The aggregation: the array \<^verbatim>\<open>leaderboard\<close> after the ranking loop, in its sorted
  order, or the error of the run; and the prototype as the run leaves it.
\<close>

definition aggregate ::
  "int \<Rightarrow> ObjectPrototype \<Rightarrow> QualifierResult list
     \<Rightarrow> (error + LeaderboardEntry list) \<times> ObjectPrototype" where
  "aggregate lbId proto results =
     (case grouped_entries lbId proto results of
        (Inl err, proto') \<Rightarrow> (Inl err, proto')
      | (Inr leaderboard, proto') \<Rightarrow> (Inr (rank_leaderboard leaderboard), proto'))"

text \<open>
  \<^verbatim>\<open>createMany\<close> is given \<^verbatim>\<open>Object.values(map)\<close> again: the entries in the order of
  \<open>map\<close>, not of the sorted array. The sorted array holds the same objects, so each
  entry carries the position the loop gave it; an entry is found in the ranked array by its
  \<open>playerId\<close>, which is its key in \<open>map\<close>.
\<close>

definition rank_of :: "LeaderboardEntry list \<Rightarrow> string \<Rightarrow> int" where
  "rank_of ranked key =
     (case find (\<lambda>entry. playerId entry = key) ranked of
        Some entry \<Rightarrow> position entry
      | None \<Rightarrow> 0)"

definition written_entries :: "LeaderboardEntry list \<Rightarrow> LeaderboardEntry list" where
  "written_entries leaderboard =
     map (\<lambda>entry. entry\<lparr>position := rank_of (rank_leaderboard leaderboard) (playerId entry)\<rparr>)
       leaderboard"

section \<open>The database and \<open>updateLeaderboard\<close>\<close>

text \<open>
  The tables are lists of rows. \<^verbatim>\<open>findMany\<close> returns the matching rows in table order,
  \<^verbatim>\<open>deleteMany\<close> removes them, \<^verbatim>\<open>createMany\<close> appends rows. The rows written by
  \<open>updateLeaderboard\<close> have distinct players and the leaderboard's own rows have just been
  deleted, so the key of \<^verbatim>\<open>LeaderboardEntry\<close> cannot reject them.

  \<^verbatim>\<open>createMany\<close> is the one call of the client that comes after the loop. When the
  loop has written a property to \<^verbatim>\<open>Object.prototype\<close>, every object handed to the
  client inherits it; the client then rejects the call (\<open>ClientError\<close>) and stores
  nothing. The calls before the loop (\<^verbatim>\<open>findUnique\<close>, \<^verbatim>\<open>findMany\<close>,
  \<^verbatim>\<open>deleteMany\<close>) are modelled on the tables alone. A run that ends in
  \<open>TypeError\<close>, \<open>NotAnEntry\<close> or \<open>ClientError\<close> has therefore deleted the rows of
  the leaderboard and written none: the throw comes after \<^verbatim>\<open>deleteMany\<close>, and
  \<^verbatim>\<open>createMany\<close> is also taken to reject an array that holds a value which is not a
  row.
\<close>

record world =
  cups :: "Cup list"
  leaderboards :: "Leaderboard list"
  qualifiers :: "Qualifier list"
  qualifierResults :: "QualifierResult list"
  leaderboardEntries :: "LeaderboardEntry list"
  objectPrototype :: ObjectPrototype

definition findUniqueCup :: "world \<Rightarrow> int \<Rightarrow> Cup option" where
  "findUniqueCup w cupId = find (\<lambda>cup. cup_id cup = cupId) (cups w)"

definition leaderboard_of :: "world \<Rightarrow> Cup \<Rightarrow> Leaderboard option" where
  "leaderboard_of w cup = find (\<lambda>l. lb_cupId l = cup_id cup) (leaderboards w)"

definition findManyResults :: "world \<Rightarrow> Cup \<Rightarrow> QualifierResult list" where
  "findManyResults w cup =
     filter (\<lambda>result. list_ex (\<lambda>q. q_id q = qualifierId result \<and> q_cupId q = cup_id cup)
                        (qualifiers w))
       (qualifierResults w)"

definition deleteManyEntries :: "int \<Rightarrow> world \<Rightarrow> world" where
  "deleteManyEntries lbId w =
     w\<lparr>leaderboardEntries :=
         filter (\<lambda>entry. leaderboardId entry \<noteq> lbId) (leaderboardEntries w)\<rparr>"

definition createManyEntries :: "LeaderboardEntry list \<Rightarrow> world \<Rightarrow> error + world" where
  "createManyEntries data w =
     (if polluted (objectPrototype w) then Inl ClientError
      else Inr (w\<lparr>leaderboardEntries := leaderboardEntries w @ data\<rparr>))"

definition updateLeaderboard :: "world \<Rightarrow> int \<Rightarrow> (error + unit) \<times> world" where
  "updateLeaderboard w cupId =
     (case findUniqueCup w cupId of
        None \<Rightarrow> (Inl (NoCup cupId), w)
      | Some cup \<Rightarrow>
          (case leaderboard_of w cup of
             None \<Rightarrow> (Inl NoLeaderboard, w)
           | Some leaderboard \<Rightarrow>
               (let allResultsOfCup = findManyResults w cup;
                    w1 = deleteManyEntries (lb_id leaderboard) w
                in case grouped_entries (lb_id leaderboard) (objectPrototype w1) allResultsOfCup of
                     (Inl err, proto') \<Rightarrow> (Inl err, w1\<lparr>objectPrototype := proto'\<rparr>)
                   | (Inr entries, proto') \<Rightarrow>
                       (case createManyEntries (written_entries entries)
                               (w1\<lparr>objectPrototype := proto'\<rparr>) of
                          Inl err \<Rightarrow> (Inl err, w1\<lparr>objectPrototype := proto'\<rparr>)
                        | Inr w2 \<Rightarrow> (Inr (), w2)))))"

section \<open>The ranking rule of the specification\<close>

text \<open>
  The rule as the specification states it, on the sequence of (qualified, points) pairs: a
  state of \<open>currentRank\<close>, \<open>rankCount\<close> and \<open>previousPoints\<close>, and one step per entry that
  returns the rank assigned and the next state.
\<close>

record rank_state =
  currentRank :: int
  rankCount :: int
  previousPoints :: "int option"

definition spec_step :: "rank_state \<Rightarrow> bool \<times> int \<Rightarrow> int \<times> rank_state" where
  "spec_step st e =
     (if fst e then
        (currentRank st, st\<lparr>rankCount := rankCount st + 1, previousPoints := Some (snd e)\<rparr>)
      else if previousPoints st \<noteq> Some (snd e) then
        (currentRank st + rankCount st,
         \<lparr>currentRank = currentRank st + rankCount st, rankCount = 1,
          previousPoints = Some (snd e)\<rparr>)
      else
        (currentRank st, st\<lparr>rankCount := rankCount st + 1, previousPoints := Some (snd e)\<rparr>))"

fun spec_ranks :: "rank_state \<Rightarrow> (bool \<times> int) list \<Rightarrow> int list" where
  "spec_ranks st [] = []"
| "spec_ranks st (e # es) = fst (spec_step st e) # spec_ranks (snd (spec_step st e)) es"

fun spec_final :: "rank_state \<Rightarrow> (bool \<times> int) list \<Rightarrow> rank_state" where
  "spec_final st [] = st"
| "spec_final st (e # es) = spec_final (snd (spec_step st e)) es"

definition spec_start :: rank_state where
  "spec_start = \<lparr>currentRank = 1, rankCount = 0, previousPoints = None\<rparr>"

definition rank_key :: "LeaderboardEntry \<Rightarrow> bool \<times> int" where
  "rank_key entry = (qualified' entry, points entry)"

section \<open>Notions used in the proofs\<close>

text \<open>The bound that the accumulation keeps on an entry when raw points are not negative.\<close>

definition entry_floor :: "LeaderboardEntry \<Rightarrow> bool" where
  "entry_floor e \<longleftrightarrow> 0 \<le> points e \<and> (qualified' e \<longrightarrow> 50000 \<le> points e)"


text \<open>
  The order in which \<^verbatim>\<open>Object.prototype\<close> can only grow: a property once written
  stays written.
\<close>

definition proto_le :: "ObjectPrototype \<Rightarrow> ObjectPrototype \<Rightarrow> bool" where
  "proto_le p q \<longleftrightarrow> (proto_points p \<longrightarrow> proto_points q) \<and> (proto_qualified p \<longrightarrow> proto_qualified q)"

text \<open>
  A key is plain when the read \<^verbatim>\<open>map[key]\<close> on the empty object is
  \<^verbatim>\<open>undefined\<close>: nothing is inherited under it.
\<close>

definition plain_key :: "ObjectPrototype \<Rightarrow> string \<Rightarrow> bool" where
  "plain_key proto key \<longleftrightarrow> get_property proto [] key = Undefined"

text \<open>The results of one player, and the entry that sums them.\<close>

definition results_of :: "QualifierResult list \<Rightarrow> string \<Rightarrow> QualifierResult list" where
  "results_of rs key = filter (\<lambda>r. QualifierResult.playerId r = key) rs"

definition total_entry :: "int \<Rightarrow> QualifierResult list \<Rightarrow> string \<Rightarrow> LeaderboardEntry" where
  "total_entry lbId rs key =
     \<lparr>points = sum_list (map getPointsByResult (results_of rs key)),
      qualified' = list_ex isQualified (results_of rs key),
      leaderboardId = lbId, position = 0, playerId = key\<rparr>"

section \<open>Example inputs\<close>

definition unpolluted :: ObjectPrototype where
  "unpolluted = \<lparr>proto_points = False, proto_qualified = False\<rparr>"

text \<open>One qualifier on server 1: a podium, a fourth place and a score above the limit.\<close>

definition scenario_results :: "QualifierResult list" where
  "scenario_results =
     [\<lparr>QualifierResult.playerId = ''P1'', position = 1, points = 0, qualifierId = 1, server = 1\<rparr>,
      \<lparr>QualifierResult.playerId = ''P2'', position = 4, points = 0, qualifierId = 1, server = 1\<rparr>,
      \<lparr>QualifierResult.playerId = ''P3'', position = 10, points = 7200, qualifierId = 1,
        server = 1\<rparr>]"

definition scenario_ranked :: "LeaderboardEntry list" where
  "scenario_ranked =
     [\<lparr>points = 50000, qualified' = True, leaderboardId = 7, position = 1, playerId = ''P1''\<rparr>,
      \<lparr>points = 15000, qualified' = False, leaderboardId = 7, position = 2, playerId = ''P2''\<rparr>,
      \<lparr>points = 7500, qualified' = False, leaderboardId = 7, position = 3, playerId = ''P3''\<rparr>]"


text \<open>
  Four qualifiers. A is fourth on server 1 in each (60000); B is fifth on server 1 in each
  and wins server 2 twice (53000); C wins server 1 once (50000, qualified).
\<close>

definition outranked_results :: "QualifierResult list" where
  "outranked_results =
     [\<lparr>QualifierResult.playerId = ''A'', position = 4, points = 0, qualifierId = 1, server = 1\<rparr>,
      \<lparr>QualifierResult.playerId = ''A'', position = 4, points = 0, qualifierId = 2, server = 1\<rparr>,
      \<lparr>QualifierResult.playerId = ''A'', position = 4, points = 0, qualifierId = 3, server = 1\<rparr>,
      \<lparr>QualifierResult.playerId = ''A'', position = 4, points = 0, qualifierId = 4, server = 1\<rparr>,
      \<lparr>QualifierResult.playerId = ''B'', position = 5, points = 0, qualifierId = 1, server = 1\<rparr>,
      \<lparr>QualifierResult.playerId = ''B'', position = 5, points = 0, qualifierId = 2, server = 1\<rparr>,
      \<lparr>QualifierResult.playerId = ''B'', position = 5, points = 0, qualifierId = 3, server = 1\<rparr>,
      \<lparr>QualifierResult.playerId = ''B'', position = 5, points = 0, qualifierId = 4, server = 1\<rparr>,
      \<lparr>QualifierResult.playerId = ''B'', position = 1, points = 0, qualifierId = 1, server = 2\<rparr>,
      \<lparr>QualifierResult.playerId = ''B'', position = 1, points = 0, qualifierId = 2, server = 2\<rparr>,
      \<lparr>QualifierResult.playerId = ''C'', position = 1, points = 0, qualifierId = 1, server = 1\<rparr>]"

text \<open>
  Q wins server 1 once (50000, qualified); N is fourth on server 1 three times and reaches
  the limit on server 2 once (50000, not qualified).
\<close>

definition boundary_tie_results :: "QualifierResult list" where
  "boundary_tie_results =
     [\<lparr>QualifierResult.playerId = ''Q'', position = 1, points = 0, qualifierId = 1, server = 1\<rparr>,
      \<lparr>QualifierResult.playerId = ''N'', position = 4, points = 0, qualifierId = 2, server = 1\<rparr>,
      \<lparr>QualifierResult.playerId = ''N'', position = 4, points = 0, qualifierId = 3, server = 1\<rparr>,
      \<lparr>QualifierResult.playerId = ''N'', position = 4, points = 0, qualifierId = 4, server = 1\<rparr>,
      \<lparr>QualifierResult.playerId = ''N'', position = 9, points = 4500, qualifierId = 1,
        server = 2\<rparr>]"

text \<open>A result under the key \<^verbatim>\<open>__proto__\<close>, first in its qualifier, and a fourth place.\<close>

definition proto_key_results :: "QualifierResult list" where
  "proto_key_results =
     [\<lparr>QualifierResult.playerId = ''__proto__'', position = 1, points = 0, qualifierId = 1,
        server = 1\<rparr>,
      \<lparr>QualifierResult.playerId = ''P2'', position = 4, points = 0, qualifierId = 1, server = 1\<rparr>]"

text \<open>Worlds without the cup, and with the cup but without its leaderboard.\<close>

definition stored_entry :: LeaderboardEntry where
  "stored_entry =
     \<lparr>points = 15000, qualified' = False, leaderboardId = 7, position = 1, playerId = ''P2''\<rparr>"

definition no_cup_world :: world where
  "no_cup_world =
     \<lparr>cups = [], leaderboards = [\<lparr>lb_id = 7, lb_cupId = 1\<rparr>], qualifiers = [],
      qualifierResults = [], leaderboardEntries = [stored_entry], objectPrototype = unpolluted\<rparr>"

definition no_leaderboard_world :: world where
  "no_leaderboard_world =
     \<lparr>cups = [\<lparr>cup_id = 1, year = 2024, month = 0, is_public = False, current = True,
               name = ''January 2024''\<rparr>],
      leaderboards = [\<lparr>lb_id = 7, lb_cupId = 2\<rparr>],
      qualifiers = [\<lparr>q_id = 1, version = 1, q_cupId = 1\<rparr>],
      qualifierResults = scenario_results,
      leaderboardEntries = [stored_entry], objectPrototype = unpolluted\<rparr>"

text \<open>The cup of the scenario, with a row left by an earlier run.\<close>

definition scenario_world :: world where
  "scenario_world =
     \<lparr>cups = [\<lparr>cup_id = 1, year = 2024, month = 0, is_public = False, current = True,
               name = ''January 2024''\<rparr>],
      leaderboards = [\<lparr>lb_id = 7, lb_cupId = 1\<rparr>],
      qualifiers = [\<lparr>q_id = 1, version = 1, q_cupId = 1\<rparr>],
      qualifierResults = scenario_results,
      leaderboardEntries = [stored_entry], objectPrototype = unpolluted\<rparr>"

text \<open>
  A cup with its leaderboard and one qualifier, in which the players \<^verbatim>\<open>points\<close> and
  \<^verbatim>\<open>__proto__\<close> have one result each.
\<close>

definition pollution_world :: world where
  "pollution_world =
     \<lparr>cups = [\<lparr>cup_id = 1, year = 2024, month = 0, is_public = False, current = True,
               name = ''January 2024''\<rparr>],
      leaderboards = [\<lparr>lb_id = 7, lb_cupId = 1\<rparr>],
      qualifiers = [\<lparr>q_id = 1, version = 1, q_cupId = 1\<rparr>],
      qualifierResults =
        [\<lparr>QualifierResult.playerId = ''points'', position = 6, points = 100, qualifierId = 1,
           server = 1\<rparr>,
         \<lparr>QualifierResult.playerId = ''__proto__'', position = 7, points = 90, qualifierId = 1,
           server = 1\<rparr>],
      leaderboardEntries = [], objectPrototype = unpolluted\<rparr>"

section \<open>Scoring: the award table and the qualification rule\<close>

text \<open>
  C4. For every result, whatever its position and raw points, \<open>getPointsByResult\<close>
  returns the award table: server 1 gives 50000 for positions 1 to 3, 15000 for position 4,
  10000 for position 5, else 7500 when the raw points reach 6969, else the raw points;
  server 2 gives 6500, 6000, 5500 for positions 1, 2, 3, else 5000 when the raw points
  reach 4500, else the raw points. A position of 0 or less takes no fixed bonus: the result
  is the points-based tier of the server.
\<close>

theorem getPointsByResult_award_table:
  "getPointsByResult r =
     award_table (server r) (QualifierResult.position r) (QualifierResult.points r)
   \<and> (QualifierResult.position r \<le> 0 \<longrightarrow>
        (server r = 1 \<longrightarrow> getPointsByResult r =
           (if QualifierResult.points r \<ge> 6969 then 7500 else QualifierResult.points r))
      \<and> (server r = 2 \<longrightarrow> getPointsByResult r =
           (if QualifierResult.points r \<ge> 4500 then 5000 else QualifierResult.points r)))"
  by (simp add: getPointsByResult_def award_table_def points_tier_def
      POINT_LIMIT_SERVER_ONE_def POINT_LIMIT_SERVER_TWO_def)

theorem getPointsByResult_award_table_witness:
  "getPointsByResult \<lparr>QualifierResult.playerId = ''p'', position = - 2, points = 7000,
      qualifierId = 1, server = 1\<rparr> = 7500
   \<and> getPointsByResult \<lparr>QualifierResult.playerId = ''p'', position = 0, points = 4499,
      qualifierId = 1, server = 2\<rparr> = 4499"
  using getPointsByResult_award_table
    [of "\<lparr>QualifierResult.playerId = ''p'', position = - 2, points = 7000,
      qualifierId = 1, server = 1\<rparr>"]
    getPointsByResult_award_table
    [of "\<lparr>QualifierResult.playerId = ''p'', position = 0, points = 4499,
      qualifierId = 1, server = 2\<rparr>"]
  by simp

text \<open>
  C5. A result is qualifying exactly when its server is 1 and its position is 1, 2 or 3;
  a result of server 2 never is.
\<close>

theorem isQualified_iff:
  "(isQualified r \<longleftrightarrow>
      server r = 1 \<and> 1 \<le> QualifierResult.position r \<and> QualifierResult.position r \<le> 3)
   \<and> (server r = 2 \<longrightarrow> \<not> isQualified r)"
  by (auto simp add: isQualified_def)

theorem isQualified_iff_witness:
  "server \<lparr>QualifierResult.playerId = ''p'', position = 1, points = 9000,
      qualifierId = 1, server = 2\<rparr> = 2
   \<and> \<not> isQualified \<lparr>QualifierResult.playerId = ''p'', position = 1, points = 9000,
      qualifierId = 1, server = 2\<rparr>"
  using isQualified_iff
    [of "\<lparr>QualifierResult.playerId = ''p'', position = 1, points = 9000,
      qualifierId = 1, server = 2\<rparr>"]
  by simp

text \<open>
  C6. A result whose server is neither 1 nor 2 is awarded 0 points and is not qualifying,
  whatever its position and raw points. Both functions are total: they return a value on
  every result.
\<close>

theorem unrecognized_server_scores_zero:
  "server r \<noteq> 1 \<Longrightarrow> server r \<noteq> 2 \<Longrightarrow> getPointsByResult r = 0 \<and> \<not> isQualified r"
  by (simp add: getPointsByResult_def isQualified_def)

theorem unrecognized_server_scores_zero_witness:
  "server \<lparr>QualifierResult.playerId = ''p'', position = 1, points = 9000,
      qualifierId = 1, server = 3\<rparr> \<noteq> 1
   \<and> server \<lparr>QualifierResult.playerId = ''p'', position = 1, points = 9000,
      qualifierId = 1, server = 3\<rparr> \<noteq> 2
   \<and> getPointsByResult \<lparr>QualifierResult.playerId = ''p'', position = 1, points = 9000,
      qualifierId = 1, server = 3\<rparr> = 0
   \<and> \<not> isQualified \<lparr>QualifierResult.playerId = ''p'', position = 1, points = 9000,
      qualifierId = 1, server = 3\<rparr>"
  using unrecognized_server_scores_zero
    [of "\<lparr>QualifierResult.playerId = ''p'', position = 1, points = 9000,
      qualifierId = 1, server = 3\<rparr>"]
  by simp

section \<open>The ranking loop follows the rule\<close>

lemma length_rank_loop: "length (rank_loop c p r xs) = length xs"
  by (induction xs arbitrary: c p r) auto

lemma rank_loop_keys: "map rank_key (rank_loop c p r xs) = map rank_key xs"
  by (induction xs arbitrary: c p r) (auto simp: rank_key_def)

lemma rank_loop_spec:
  "map position (rank_loop c p r xs)
     = spec_ranks \<lparr>currentRank = c, rankCount = r, previousPoints = p\<rparr> (map rank_key xs)"
  by (induction xs arbitrary: c p r) (auto simp: rank_key_def spec_step_def)

lemma spec_ranks_append:
  "spec_ranks st (xs @ ys) = spec_ranks st xs @ spec_ranks (spec_final st xs) ys"
  by (induction xs arbitrary: st) auto

lemma spec_final_append:
  "spec_final st (xs @ ys) = spec_final (spec_final st xs) ys"
  by (induction xs arbitrary: st) auto

lemma spec_ranks_ge:
  "0 \<le> rankCount st \<Longrightarrow> x \<in> set (spec_ranks st ks) \<Longrightarrow> currentRank st \<le> x"
proof (induction ks arbitrary: st)
  case Nil
  then show ?case by simp
next
  case (Cons k ks)
  have step: "0 \<le> rankCount (snd (spec_step st k))"
             "currentRank st \<le> currentRank (snd (spec_step st k))"
             "currentRank st \<le> fst (spec_step st k)"
    using Cons.prems(1) by (auto simp: spec_step_def)
  from Cons.prems(2) consider "x = fst (spec_step st k)" | "x \<in> set (spec_ranks (snd (spec_step st k)) ks)"
    by auto
  then show ?case
  proof cases
    case 1
    then show ?thesis using step(3) by simp
  next
    case 2
    then have "currentRank (snd (spec_step st k)) \<le> x"
      using Cons.IH step(1) by blast
    then show ?thesis using step(2) by linarith
  qed
qed

lemma spec_step_rank: "fst (spec_step st k) = currentRank (snd (spec_step st k))"
  by (simp add: spec_step_def)

lemma spec_ranks_sorted:
  "0 \<le> rankCount st \<Longrightarrow> sorted (spec_ranks st ks)"
proof (induction ks arbitrary: st)
  case Nil
  then show ?case by simp
next
  case (Cons k ks)
  have nonneg: "0 \<le> rankCount (snd (spec_step st k))"
    using Cons.prems by (auto simp: spec_step_def)
  have "\<forall>x \<in> set (spec_ranks (snd (spec_step st k)) ks). fst (spec_step st k) \<le> x"
    using spec_ranks_ge [OF nonneg] by (simp add: spec_step_rank)
  then show ?case using Cons.IH [OF nonneg] by simp
qed

lemma spec_qualified_block:
  "\<forall>k \<in> set ks. fst k \<Longrightarrow>
     (\<forall>x \<in> set (spec_ranks st ks). x = currentRank st)
   \<and> currentRank (spec_final st ks) = currentRank st
   \<and> rankCount (spec_final st ks) = rankCount st + int (length ks)
   \<and> previousPoints (spec_final st ks) = (if ks = [] then previousPoints st else Some (snd (last ks)))"
proof (induction ks arbitrary: st)
  case Nil
  then show ?case by simp
next
  case (Cons k ks)
  let ?st = "snd (spec_step st k)"
  have q: "fst k" and rest: "\<forall>k \<in> set ks. fst k"
    using Cons.prems by simp_all
  have st: "currentRank ?st = currentRank st" "rankCount ?st = rankCount st + 1"
    "previousPoints ?st = Some (snd k)" "fst (spec_step st k) = currentRank st"
    using q by (simp_all add: spec_step_def)
  show ?case
    using Cons.IH [OF rest, of ?st] st by auto
qed

lemma length_spec_ranks: "length (spec_ranks st ks) = length ks"
  by (induction ks arbitrary: st) auto


lemma spec_final_rankCount_nonneg:
  "0 \<le> rankCount st \<Longrightarrow> 0 \<le> rankCount (spec_final st ks)"
  by (induction ks arbitrary: st) (auto simp: spec_step_def)

lemma aggregate_Inr:
  assumes "fst (aggregate lbId proto rs) = Inr ranked"
  obtains leaderboard where "fst (grouped_entries lbId proto rs) = Inr leaderboard"
    and "ranked = rank_leaderboard leaderboard"
  using assms by (auto simp: aggregate_def split: prod.splits sum.splits)

lemma rank_leaderboard_spec:
  "map position (rank_leaderboard es) = spec_ranks spec_start (map rank_key (rank_leaderboard es))"
  by (simp add: rank_leaderboard_def rank_loop_spec rank_loop_keys spec_start_def)

lemma rank_loop_points: "map points (rank_loop c p r xs) = map points xs"
  by (induction xs arbitrary: c p r) auto

lemma rank_leaderboard_descending:
  "sorted_wrt (\<lambda>a b. points a \<ge> points b) (rank_leaderboard es)"
proof -
  have "sorted (map (\<lambda>e. - points e) (sort_leaderboard es))"
    by (simp add: sort_leaderboard_def)
  then have "sorted_wrt (\<lambda>x y. x \<ge> y) (map points (sort_leaderboard es))"
    by (simp add: sorted_map sorted_wrt_map)
  then have "sorted_wrt (\<lambda>x y. x \<ge> y) (map points (rank_leaderboard es))"
    by (simp add: rank_leaderboard_def rank_loop_points)
  then show ?thesis
    by (simp add: sorted_wrt_map)
qed

lemma rank_loop_map:
  assumes "\<And>e x. f (e\<lparr>position := x\<rparr>) = f e"
  shows "map f (rank_loop c p r xs) = map f xs"
  by (induction xs arbitrary: c p r) (simp_all add: assms)

section \<open>Invariants of the accumulation\<close>

lemma getPointsByResult_nonneg:
  "0 \<le> QualifierResult.points r \<Longrightarrow> 0 \<le> getPointsByResult r"
  by (simp add: getPointsByResult_def)

lemma getPointsByResult_qualifying:
  "isQualified r \<Longrightarrow> getPointsByResult r = 50000"
  by (simp add: getPointsByResult_def isQualified_def)

lemma add_result_floor:
  "0 \<le> QualifierResult.points r \<Longrightarrow> entry_floor e \<Longrightarrow> entry_floor (add_result r e)"
  using getPointsByResult_nonneg [of r] getPointsByResult_qualifying [of r]
  by (auto simp: entry_floor_def add_result_def Let_def)

lemma new_entry_floor: "entry_floor (new_entry lbId key)"
  by (simp add: entry_floor_def new_entry_def)

lemma set_alist_update: "set (AList.update key s m) \<subseteq> insert (key, s) (set m)"
  by (induction m) auto

lemma get_property_own:
  "get_property proto m key = Object (Entry e) \<Longrightarrow> (key, Entry e) \<in> set m"
  by (auto simp: get_property_def split: option.splits if_splits dest: map_of_SomeD)

lemma group_step_entries:
  assumes step: "group_step lbId proto m r = (Inr m', proto')"
    and inv: "\<forall>k e. (k, Entry e) \<in> set m \<longrightarrow> P k e"
    and new: "\<And>key. P key (new_entry lbId key)"
    and add: "\<And>k e. P k e \<Longrightarrow> P k (add_result r e)"
  shows "\<forall>k e. (k, Entry e) \<in> set m' \<longrightarrow> P k e"
proof -
  let ?key = "QualifierResult.playerId r"
  have upd: "\<forall>k e'. (k, Entry e') \<in> set (AList.update ?key (Entry e) m) \<longrightarrow> P k e'"
    if "P ?key e" for e
    using set_alist_update [of ?key "Entry e" m] inv that by blast
  have upd_builtin: "\<forall>k e. (k, Entry e) \<in> set (AList.update ?key Builtin m) \<longrightarrow> P k e"
    using set_alist_update [of ?key Builtin m] inv by blast
  show ?thesis
  proof (cases "get_property proto m ?key")
    case Undefined
    then have "m' = AList.update ?key (Entry (add_result r (new_entry lbId ?key))) m"
      using step by (simp add: group_step_def Let_def)
    then show ?thesis using upd [OF add [OF new]] by simp
  next
    case (Object s)
    show ?thesis
    proof (cases s)
      case (Entry e)
      then have "P ?key e"
        using Object get_property_own inv by blast
      moreover have "m' = AList.update ?key (Entry (add_result r e)) m"
        using step Object Entry by (simp add: group_step_def Let_def)
      ultimately show ?thesis using upd [OF add] by simp
    next
      case Builtin
      then have "m' = AList.update ?key Builtin m"
        using step Object by (simp add: group_step_def Let_def)
      then show ?thesis using upd_builtin by simp
    qed
  next
    case PrototypeObject
    then have "m' = m"
      using step by (simp add: group_step_def Let_def)
    then show ?thesis using inv by simp
  next
    case Primitive
    then show ?thesis
      using step by (simp add: group_step_def Let_def)
  qed
qed

lemma group_results_entries:
  assumes "group_results lbId proto m rs = (Inr m', proto')"
    and "\<forall>k e. (k, Entry e) \<in> set m \<longrightarrow> P k e"
    and "\<And>key. P key (new_entry lbId key)"
    and "\<And>r k e. r \<in> set rs \<Longrightarrow> P k e \<Longrightarrow> P k (add_result r e)"
  shows "\<forall>k e. (k, Entry e) \<in> set m' \<longrightarrow> P k e"
  using assms
proof (induction rs arbitrary: proto m)
  case Nil
  then show ?case by simp
next
  case (Cons r rs)
  from Cons.prems(1) obtain m1 proto1 where
    step: "group_step lbId proto m r = (Inr m1, proto1)"
    and rest: "group_results lbId proto1 m1 rs = (Inr m', proto')"
    by (auto split: prod.splits sum.splits)
  have "\<forall>k e. (k, Entry e) \<in> set m1 \<longrightarrow> P k e"
    using group_step_entries [OF step Cons.prems(2)] Cons.prems(3,4) by simp
  then show ?case
    using Cons.IH [OF rest] Cons.prems(3,4) by simp
qed

lemma set_object_values: "set (object_values m) = snd ` set m"
proof -
  let ?P = "\<lambda>p. array_index (fst p) \<noteq> None"
  have "set (object_values m) = snd ` (set (filter ?P m) \<union> set (filter (\<lambda>p. \<not> ?P p) m))"
    by (simp add: object_values_def image_Un)
  also have "set (filter ?P m) \<union> set (filter (\<lambda>p. \<not> ?P p) m) = set m"
    by auto
  finally show ?thesis .
qed

lemma entries_of_Some: "entries_of ss = Some es \<Longrightarrow> ss = map Entry es"
  by (induction ss arbitrary: es rule: entries_of.induct) auto

lemma grouped_entries_slots:
  assumes "grouped_entries lbId proto rs = (Inr es, proto')"
  obtains m where "group_results lbId proto [] rs = (Inr m, proto')"
    and "map Entry es = object_values m"
  using assms by (auto simp: grouped_entries_def split: prod.splits sum.splits option.splits
      dest: entries_of_Some)

lemma grouped_entries_all:
  assumes grouped: "grouped_entries lbId proto rs = (Inr es, proto')"
    and new: "\<And>key. P key (new_entry lbId key)"
    and add: "\<And>r k e. r \<in> set rs \<Longrightarrow> P k e \<Longrightarrow> P k (add_result r e)"
  shows "\<forall>e \<in> set es. \<exists>k. P k e"
proof
  fix e assume e: "e \<in> set es"
  from grouped obtain m where m: "group_results lbId proto [] rs = (Inr m, proto')"
    and vals: "map Entry es = object_values m"
    by (rule grouped_entries_slots)
  have inv: "\<forall>k e. (k, Entry e) \<in> set m \<longrightarrow> P k e"
    using group_results_entries [OF m, where P = P] new add by simp
  from e have "Entry e \<in> set (map Entry es)" by simp
  then obtain k where "(k, Entry e) \<in> set m"
    unfolding vals set_object_values by force
  then show "\<exists>k. P k e" using inv by blast
qed

lemma rank_leaderboard_keys:
  "rank_key ` set (rank_leaderboard es) = rank_key ` set es"
proof -
  have "map rank_key (rank_leaderboard es) = map rank_key (sort_leaderboard es)"
    by (simp add: rank_leaderboard_def rank_loop_keys)
  then have "set (map rank_key (rank_leaderboard es)) = set (map rank_key (sort_leaderboard es))"
    by simp
  then show ?thesis
    by (simp add: sort_leaderboard_def)
qed





section \<open>Ranks of the aggregation output\<close>



text \<open>
  C2, as stated, fails: a qualified entry takes rank 1 only while no block of non-qualified
  entries has been closed before it, and the first non-qualified entry jumps by the count
  of qualified entries only when it comes after all of them and does not share the points
  of the last one. In \<open>outranked_results\<close> two non-qualified players total more than the
  qualified player C: C takes rank 2, and the first non-qualified entry A takes rank 1 with
  one qualified entry present. In \<open>boundary_tie_results\<close> the first non-qualified entry N
  has the points of the qualified entry before it and shares rank 1.
\<close>

theorem qualified_block_counterexample:
  "fst (aggregate 7 unpolluted outranked_results)
     = Inr [\<lparr>points = 60000, qualified' = False, leaderboardId = 7, position = 1, playerId = ''A''\<rparr>,
            \<lparr>points = 53000, qualified' = False, leaderboardId = 7, position = 2, playerId = ''B''\<rparr>,
            \<lparr>points = 50000, qualified' = True, leaderboardId = 7, position = 2, playerId = ''C''\<rparr>]
   \<and> fst (aggregate 7 unpolluted boundary_tie_results)
     = Inr [\<lparr>points = 50000, qualified' = True, leaderboardId = 7, position = 1, playerId = ''Q''\<rparr>,
            \<lparr>points = 50000, qualified' = False, leaderboardId = 7, position = 1, playerId = ''N''\<rparr>]"
proof
  show "fst (aggregate 7 unpolluted outranked_results)
     = Inr [\<lparr>points = 60000, qualified' = False, leaderboardId = 7, position = 1, playerId = ''A''\<rparr>,
            \<lparr>points = 53000, qualified' = False, leaderboardId = 7, position = 2, playerId = ''B''\<rparr>,
            \<lparr>points = 50000, qualified' = True, leaderboardId = 7, position = 2, playerId = ''C''\<rparr>]"
    by code_simp
  show "fst (aggregate 7 unpolluted boundary_tie_results)
     = Inr [\<lparr>points = 50000, qualified' = True, leaderboardId = 7, position = 1, playerId = ''Q''\<rparr>,
            \<lparr>points = 50000, qualified' = False, leaderboardId = 7, position = 1, playerId = ''N''\<rparr>]"
    by code_simp
qed

text \<open>
  C2, amended. When the output is a block \<open>qs\<close> of qualified entries followed by a block
  \<open>ns\<close> of non-qualified entries, every entry of \<open>qs\<close> has rank 1; and the first entry of
  \<open>ns\<close> has rank (number of qualified entries) + 1, which is 1 when there is none, provided
  its points differ from those of the last qualified entry.
\<close>

theorem qualified_block_ranks:
  assumes out: "fst (aggregate lbId proto rs) = Inr (qs @ ns)"
    and qs: "\<forall>q \<in> set qs. qualified' q"
    and ns: "\<forall>n \<in> set ns. \<not> qualified' n"
  shows "(\<forall>q \<in> set qs. position q = 1)
       \<and> (ns \<noteq> [] \<longrightarrow> (qs = [] \<or> points (hd ns) \<noteq> points (last qs))
            \<longrightarrow> position (hd ns) = int (length qs) + 1)"
proof -
  from out obtain es where ranked: "qs @ ns = rank_leaderboard es"
    by (rule aggregate_Inr)
  let ?st = "spec_final spec_start (map rank_key qs)"
  have "map position (qs @ ns) = spec_ranks spec_start (map rank_key (qs @ ns))"
    unfolding ranked by (rule rank_leaderboard_spec)
  then have "map position qs @ map position ns
      = spec_ranks spec_start (map rank_key qs) @ spec_ranks ?st (map rank_key ns)"
    by (simp add: spec_ranks_append)
  then have pq: "map position qs = spec_ranks spec_start (map rank_key qs)"
    and pn: "map position ns = spec_ranks ?st (map rank_key ns)"
    by (simp_all add: length_spec_ranks)
  have allq: "\<forall>k \<in> set (map rank_key qs). fst k"
    using qs by (simp add: rank_key_def)
  note block = spec_qualified_block [OF allq, of spec_start]
  have "\<forall>x \<in> set (map position qs). x = 1"
    unfolding pq using block by (simp add: spec_start_def)
  then have first: "\<forall>q \<in> set qs. position q = 1"
    by simp
  have second: "position (hd ns) = int (length qs) + 1"
    if "ns \<noteq> []" and diff: "qs = [] \<or> points (hd ns) \<noteq> points (last qs)"
  proof -
    from that obtain n ns' where n: "ns = n # ns'"
      by (cases ns) auto
    have nq: "\<not> fst (rank_key n)"
      using ns n by (simp add: rank_key_def)
    have prev: "previousPoints ?st \<noteq> Some (snd (rank_key n))"
      using block diff n by (auto simp: spec_start_def rank_key_def last_map)
    have "position n = fst (spec_step ?st (rank_key n))"
      using pn n by simp
    also have "\<dots> = currentRank ?st + rankCount ?st"
      using nq prev by (simp add: spec_step_def)
    also have "\<dots> = 1 + int (length qs)"
      using block by (simp add: spec_start_def)
    finally show ?thesis using n by simp
  qed
  show ?thesis using first second by blast
qed

theorem qualified_block_ranks_witness:
  "fst (aggregate 7 unpolluted scenario_results)
     = Inr ([\<lparr>points = 50000, qualified' = True, leaderboardId = 7, position = 1, playerId = ''P1''\<rparr>]
          @ [\<lparr>points = 15000, qualified' = False, leaderboardId = 7, position = 2, playerId = ''P2''\<rparr>,
             \<lparr>points = 7500, qualified' = False, leaderboardId = 7, position = 3, playerId = ''P3''\<rparr>])
   \<and> position \<lparr>points = 50000, qualified' = True, leaderboardId = 7, position = 1, playerId = ''P1''\<rparr> = 1
   \<and> position \<lparr>points = 15000, qualified' = False, leaderboardId = 7, position = 2, playerId = ''P2''\<rparr>
       = int (length [\<lparr>points = 50000, qualified' = True, leaderboardId = 7, position = 1, playerId = ''P1''\<rparr>]) + 1"
proof -
  let ?qs = "[\<lparr>points = 50000, qualified' = True, leaderboardId = 7, position = 1, playerId = ''P1''\<rparr>]"
  let ?ns = "[\<lparr>points = 15000, qualified' = False, leaderboardId = 7, position = 2, playerId = ''P2''\<rparr>,
             \<lparr>points = 7500, qualified' = False, leaderboardId = 7, position = 3, playerId = ''P3''\<rparr>]"
  have out: "fst (aggregate 7 unpolluted scenario_results) = Inr (?qs @ ?ns)"
    by code_simp
  have qs: "\<forall>q \<in> set ?qs. qualified' q" and ns: "\<forall>n \<in> set ?ns. \<not> qualified' n"
    by simp_all
  show ?thesis
    using out qualified_block_ranks [OF out qs ns] by simp
qed

text \<open>
  C9. In the output of the aggregation, which is in points-descending order, the rank of
  an entry is at most the rank of the entry after it.
\<close>

theorem ranks_nondecreasing:
  assumes "fst (aggregate lbId proto rs) = Inr ranked" and "Suc i < length ranked"
  shows "points (ranked ! i) \<ge> points (ranked ! Suc i)
       \<and> position (ranked ! i) \<le> position (ranked ! Suc i)"
proof -
  from assms(1) obtain es where ranked: "ranked = rank_leaderboard es"
    by (rule aggregate_Inr)
  have "sorted (map position ranked)"
    unfolding ranked rank_leaderboard_spec
    by (rule spec_ranks_sorted) (simp add: spec_start_def)
  then have "map position ranked ! i \<le> map position ranked ! Suc i"
    using assms(2) by (intro sorted_nth_mono) simp_all
  moreover have "points (ranked ! i) \<ge> points (ranked ! Suc i)"
    using sorted_wrt_nth_less [OF rank_leaderboard_descending, of i "Suc i" es] assms(2)
    unfolding ranked by simp
  ultimately show ?thesis using assms(2) by simp
qed

theorem ranks_nondecreasing_witness:
  "fst (aggregate 7 unpolluted scenario_results) = Inr scenario_ranked
   \<and> Suc 0 < length scenario_ranked
   \<and> points (scenario_ranked ! 0) \<ge> points (scenario_ranked ! Suc 0)
   \<and> position (scenario_ranked ! 0) \<le> position (scenario_ranked ! Suc 0)"
proof -
  have out: "fst (aggregate 7 unpolluted scenario_results) = Inr scenario_ranked"
    by code_simp
  have len: "Suc 0 < length scenario_ranked"
    by (simp add: scenario_ranked_def)
  show ?thesis
    using out len ranks_nondecreasing [OF out len] by simp
qed

section \<open>The floor of a qualified total\<close>

text \<open>
  C10. When no result has negative raw points, every entry of the output whose qualified
  flag is set totals at least 50000 points: a qualifying result is awarded exactly 50000
  and every result is awarded a non-negative amount.
\<close>

theorem qualified_total_floor:
  assumes raw: "\<forall>r \<in> set rs. 0 \<le> QualifierResult.points r"
    and out: "fst (aggregate lbId proto rs) = Inr ranked"
  shows "(\<forall>e \<in> set ranked. qualified' e \<longrightarrow> 50000 \<le> points e)
       \<and> (\<forall>r \<in> set rs. (isQualified r \<longrightarrow> getPointsByResult r = 50000)
                        \<and> 0 \<le> getPointsByResult r)"
proof -
  from out obtain es where grouped: "fst (grouped_entries lbId proto rs) = Inr es"
    and ranked: "ranked = rank_leaderboard es"
    by (rule aggregate_Inr)
  from grouped obtain proto' where "grouped_entries lbId proto rs = (Inr es, proto')"
    by (cases "grouped_entries lbId proto rs") auto
  then have floor: "\<forall>e \<in> set es. entry_floor e"
    using grouped_entries_all [where P = "\<lambda>k. entry_floor", OF \<open>grouped_entries lbId proto rs = (Inr es, proto')\<close>]
      new_entry_floor add_result_floor raw by blast
  have "50000 \<le> points e" if e: "e \<in> set ranked" and q: "qualified' e" for e
  proof -
    from e have "rank_key e \<in> rank_key ` set es"
      unfolding ranked using rank_leaderboard_keys by blast
    then obtain e0 where "e0 \<in> set es" "rank_key e = rank_key e0" by blast
    then show ?thesis
      using floor q by (auto simp: rank_key_def entry_floor_def)
  qed
  then show ?thesis
    using raw getPointsByResult_nonneg getPointsByResult_qualifying by blast
qed

theorem qualified_total_floor_witness:
  "fst (aggregate 7 unpolluted scenario_results) = Inr scenario_ranked
   \<and> qualified' (scenario_ranked ! 0) \<and> 50000 \<le> points (scenario_ranked ! 0)"
proof -
  have raw: "\<forall>r \<in> set scenario_results. 0 \<le> QualifierResult.points r"
    by (simp add: scenario_results_def)
  have out: "fst (aggregate 7 unpolluted scenario_results) = Inr scenario_ranked"
    by code_simp
  have first: "scenario_ranked ! 0 \<in> set scenario_ranked" "qualified' (scenario_ranked ! 0)"
    by (simp_all add: scenario_ranked_def)
  show ?thesis
    using out first qualified_total_floor [OF raw out] by blast
qed

section \<open>Failure before any write\<close>

text \<open>
  C7. When no cup has the given id, or no leaderboard belongs to that cup,
  \<open>updateLeaderboard\<close> throws (\<open>NoCup\<close> or \<open>NoLeaderboard\<close>) and the stored state is
  the one it started from: no entry is deleted and none is inserted.
\<close>

theorem missing_cup_or_leaderboard:
  assumes "(\<forall>c \<in> set (cups w). cup_id c \<noteq> cupId)
         \<or> (\<forall>l \<in> set (leaderboards w). lb_cupId l \<noteq> cupId)"
  shows "(fst (updateLeaderboard w cupId) = Inl (NoCup cupId)
          \<or> fst (updateLeaderboard w cupId) = Inl NoLeaderboard)
       \<and> snd (updateLeaderboard w cupId) = w"
proof (cases "findUniqueCup w cupId")
  case None
  then show ?thesis by (simp add: updateLeaderboard_def)
next
  case (Some cup)
  then have cup: "cup \<in> set (cups w)" "cup_id cup = cupId"
    by (auto simp: findUniqueCup_def find_Some_iff)
  with assms have "\<forall>l \<in> set (leaderboards w). lb_cupId l \<noteq> cup_id cup"
    by auto
  then have "leaderboard_of w cup = None"
    by (simp add: leaderboard_of_def find_None_iff)
  with Some show ?thesis by (simp add: updateLeaderboard_def)
qed

theorem missing_cup_or_leaderboard_witness:
  "updateLeaderboard no_cup_world 1 = (Inl (NoCup 1), no_cup_world)
   \<and> updateLeaderboard no_leaderboard_world 1 = (Inl NoLeaderboard, no_leaderboard_world)"
proof -
  have a: "(\<forall>c \<in> set (cups no_cup_world). cup_id c \<noteq> 1)
         \<or> (\<forall>l \<in> set (leaderboards no_cup_world). lb_cupId l \<noteq> 1)"
    by (simp add: no_cup_world_def)
  have b: "(\<forall>c \<in> set (cups no_leaderboard_world). cup_id c \<noteq> 1)
         \<or> (\<forall>l \<in> set (leaderboards no_leaderboard_world). lb_cupId l \<noteq> 1)"
    by (simp add: no_leaderboard_world_def)
  have "fst (updateLeaderboard no_cup_world 1) \<noteq> Inl NoLeaderboard"
    by code_simp
  moreover have "fst (updateLeaderboard no_leaderboard_world 1) \<noteq> Inl (NoCup 1)"
    by code_simp
  ultimately show ?thesis
    using missing_cup_or_leaderboard [OF a] missing_cup_or_leaderboard [OF b]
    by (metis prod.collapse)
qed

section \<open>One entry per player\<close>

text \<open>
  On plain keys the accumulation is the intended dictionary: the output has one entry for
  each player with a result and no other, with the sum of the awarded points and the
  disjunction of the qualifying flags of that player's results.
\<close>

lemma get_property_plain:
  "plain_key proto key \<Longrightarrow>
     get_property proto m key = (case map_of m key of Some s \<Rightarrow> Object s | None \<Rightarrow> Undefined)"
  by (auto simp: plain_key_def get_property_def split: option.splits if_splits)

lemma total_entry_none:
  "key \<notin> QualifierResult.playerId ` set rs \<Longrightarrow> total_entry lbId rs key = new_entry lbId key"
proof -
  assume "key \<notin> QualifierResult.playerId ` set rs"
  then have "results_of rs key = []"
    by (auto simp: results_of_def filter_empty_conv)
  then show ?thesis by (simp add: total_entry_def new_entry_def)
qed

lemma total_entry_snoc:
  "add_result r (total_entry lbId rs (QualifierResult.playerId r))
     = total_entry lbId (rs @ [r]) (QualifierResult.playerId r)"
  by (simp add: add_result_def total_entry_def results_of_def Let_def)

lemma total_entry_other:
  "key \<noteq> QualifierResult.playerId r \<Longrightarrow> total_entry lbId (rs @ [r]) key = total_entry lbId rs key"
  by (simp add: total_entry_def results_of_def)

lemma group_results_append:
  "group_results lbId proto m (xs @ ys) =
     (case group_results lbId proto m xs of
        (Inl err, proto') \<Rightarrow> (Inl err, proto')
      | (Inr m', proto') \<Rightarrow> group_results lbId proto' m' ys)"
  by (induction xs arbitrary: proto m) (auto split: prod.splits sum.splits)

lemma group_results_plain:
  assumes "\<forall>r \<in> set rs. plain_key proto (QualifierResult.playerId r)"
  shows "\<exists>m. group_results lbId proto [] rs = (Inr m, proto) \<and> distinct (map fst m)
           \<and> (\<forall>k. map_of m k = (if k \<in> QualifierResult.playerId ` set rs
                                  then Some (Entry (total_entry lbId rs k)) else None))"
  using assms
proof (induction rs rule: rev_induct)
  case Nil
  then show ?case by simp
next
  case (snoc r rs)
  let ?key = "QualifierResult.playerId r"
  from snoc obtain m where m: "group_results lbId proto [] rs = (Inr m, proto)"
    and dist: "distinct (map fst m)"
    and look: "\<And>k. map_of m k = (if k \<in> QualifierResult.playerId ` set rs
                                  then Some (Entry (total_entry lbId rs k)) else None)"
    by auto
  have plain: "plain_key proto ?key"
    using snoc.prems by simp
  let ?m' = "AList.update ?key (Entry (total_entry lbId (rs @ [r]) ?key)) m"
  have step: "group_step lbId proto m r = (Inr ?m', proto)"
  proof (cases "?key \<in> QualifierResult.playerId ` set rs")
    case True
    then have "get_property proto m ?key = Object (Entry (total_entry lbId rs ?key))"
      using look [of ?key] plain by (simp add: get_property_plain)
    then show ?thesis
      by (simp add: group_step_def Let_def total_entry_snoc)
  next
    case False
    then have "get_property proto m ?key = Undefined"
      using look [of ?key] plain by (simp add: get_property_plain)
    then show ?thesis
      using total_entry_snoc [of r lbId rs] total_entry_none [OF False, of lbId]
      by (simp add: group_step_def Let_def)
  qed
  have "group_results lbId proto [] (rs @ [r]) = (Inr ?m', proto)"
    using m step by (simp add: group_results_append)
  moreover have "distinct (map fst ?m')"
    using dist by (simp add: distinct_update)
  moreover have "map_of ?m' k = (if k \<in> QualifierResult.playerId ` set (rs @ [r])
                                  then Some (Entry (total_entry lbId (rs @ [r]) k)) else None)" for k
    using look [of k] by (auto simp: update_conv' total_entry_other)
  ultimately show ?case by blast
qed

lemma object_values_permutation:
  obtains ps where "object_values m = map snd ps" and "mset ps = mset m"
proof
  let ?P = "\<lambda>p. array_index (fst p) \<noteq> None"
  let ?ps = "sort_key index_of_key (filter ?P m) @ filter (\<lambda>p. \<not> ?P p) m"
  show "object_values m = map snd ?ps"
    by (simp add: object_values_def)
  show "mset ?ps = mset m"
    by simp
qed

lemma entries_of_map: "entries_of (map Entry es) = Some es"
  by (induction es) auto

lemma grouped_entries_plain:
  assumes "\<forall>r \<in> set rs. plain_key proto (QualifierResult.playerId r)"
  shows "\<exists>es. grouped_entries lbId proto rs = (Inr es, proto) \<and> distinct (map playerId es)
           \<and> set es = total_entry lbId rs ` (QualifierResult.playerId ` set rs)"
proof -
  let ?ids = "QualifierResult.playerId ` set rs"
  from group_results_plain [OF assms, of lbId] obtain m where
    m: "group_results lbId proto [] rs = (Inr m, proto)"
    and dist: "distinct (map fst m)"
    and look: "\<And>k. map_of m k = (if k \<in> ?ids then Some (Entry (total_entry lbId rs k)) else None)"
    by auto
  obtain ps where vals: "object_values m = map snd ps" and perm: "mset ps = mset m"
    by (rule object_values_permutation)
  have set_ps: "set ps = set m"
    using perm by (rule mset_eq_setD)
  have slot: "snd p = Entry (total_entry lbId rs (fst p))" if "p \<in> set ps" for p
  proof -
    from that have "map_of m (fst p) = Some (snd p)"
      using dist set_ps by simp
    then show ?thesis
      using look [of "fst p"] by (simp split: if_splits)
  qed
  let ?es = "map (\<lambda>p. total_entry lbId rs (fst p)) ps"
  have "map snd ps = map Entry ?es"
    using slot by simp
  then have "entries_of (object_values m) = Some ?es"
    unfolding vals by (simp only: entries_of_map)
  then have "grouped_entries lbId proto rs = (Inr ?es, proto)"
    using m by (simp add: grouped_entries_def)
  moreover have "distinct (map playerId ?es)"
  proof -
    have "map playerId ?es = map fst ps"
      by (simp add: total_entry_def)
    moreover have "mset (map fst ps) = mset (map fst m)"
      using perm by simp
    ultimately show ?thesis
      using dist mset_eq_imp_distinct_iff by metis
  qed
  moreover have "set ?es = total_entry lbId rs ` ?ids"
  proof -
    have "fst ` set m = dom (map_of m)"
      by (simp add: dom_map_of_conv_image_fst)
    also have "\<dots> = ?ids"
      using look by (auto simp: dom_def)
    finally show ?thesis
      using set_ps by (simp add: image_image [symmetric] del: image_image)
  qed
  ultimately show ?thesis by blast
qed

lemma aggregate_plain_keys:
  assumes "\<forall>r \<in> set rs. plain_key proto (QualifierResult.playerId r)"
  shows "\<exists>ranked. aggregate lbId proto rs = (Inr ranked, proto)
           \<and> distinct (map playerId ranked)
           \<and> playerId ` set ranked = QualifierResult.playerId ` set rs
           \<and> (\<forall>e \<in> set ranked.
                 points e = sum_list (map getPointsByResult (results_of rs (playerId e)))
               \<and> (qualified' e \<longleftrightarrow> (\<exists>r \<in> set (results_of rs (playerId e)). isQualified r)))"
proof -
  let ?ids = "QualifierResult.playerId ` set rs"
  let ?f = "\<lambda>e. (playerId e, points e, qualified' e)"
  from grouped_entries_plain [OF assms, of lbId] obtain es where
    grouped: "grouped_entries lbId proto rs = (Inr es, proto)"
    and dist: "distinct (map playerId es)"
    and es: "set es = total_entry lbId rs ` ?ids"
    by blast
  let ?ranked = "rank_leaderboard es"
  have out: "aggregate lbId proto rs = (Inr ?ranked, proto)"
    using grouped by (simp add: aggregate_def)
  have same: "map ?f ?ranked = map ?f (sort_leaderboard es)"
    unfolding rank_leaderboard_def by (rule rank_loop_map) simp
  have "map playerId ?ranked = map playerId (sort_leaderboard es)"
    unfolding rank_leaderboard_def by (rule rank_loop_map) simp
  moreover have "mset (map playerId (sort_leaderboard es)) = mset (map playerId es)"
    by (simp add: sort_leaderboard_def)
  ultimately have d: "distinct (map playerId ?ranked)"
    using dist mset_eq_imp_distinct_iff by metis
  have "set (map ?f ?ranked) = set (map ?f es)"
    unfolding same by (simp add: sort_leaderboard_def)
  then have img: "?f ` set ?ranked = ?f ` set es"
    by simp
  have each: "\<exists>k \<in> ?ids. ?f e = ?f (total_entry lbId rs k)" if "e \<in> set ?ranked" for e
  proof -
    from that have "?f e \<in> ?f ` set es"
      using img by blast
    then show ?thesis unfolding es by blast
  qed
  have ids: "playerId ` set ?ranked = ?ids"
  proof -
    have "playerId ` set ?ranked = fst ` ?f ` set ?ranked"
      by (simp add: image_image)
    also have "\<dots> = fst ` ?f ` set es"
      using img by simp
    also have "\<dots> = playerId ` set es"
      by (simp add: image_image)
    also have "\<dots> = ?ids"
      unfolding es by (simp add: image_image total_entry_def)
    finally show ?thesis .
  qed
  have "points e = sum_list (map getPointsByResult (results_of rs (playerId e)))
      \<and> (qualified' e \<longleftrightarrow> (\<exists>r \<in> set (results_of rs (playerId e)). isQualified r))"
    if "e \<in> set ?ranked" for e
    using each [OF that] by (auto simp: total_entry_def list_ex_iff)
  then show ?thesis
    using out d ids by blast
qed

text \<open>
  C3 asks for this on every collection of results. It fails for the key
  \<^verbatim>\<open>__proto__\<close>: the read \<^verbatim>\<open>map["__proto__"]\<close> is the prototype object, not
  \<^verbatim>\<open>undefined\<close>, so no fresh entry is made, and the assignment
  \<^verbatim>\<open>map["__proto__"] = entry\<close> creates no own property. In \<open>proto_key_results\<close> the
  player \<^verbatim>\<open>__proto__\<close> has a result, a first place on server 1, and the output has no
  entry for that player; the points and the flag went to \<^verbatim>\<open>Object.prototype\<close>.
\<close>

theorem proto_key_dropped:
  "aggregate 7 unpolluted proto_key_results
     = (Inr [\<lparr>points = 15000, qualified' = False, leaderboardId = 7, position = 1,
               playerId = ''P2''\<rparr>],
        \<lparr>proto_points = True, proto_qualified = True\<rparr>)"
  by code_simp

section \<open>The rows written are the ranked entries\<close>

text \<open>
  The keys of \<open>map\<close> are distinct and each entry carries its key as \<open>playerId\<close>,
  so the rows given to \<^verbatim>\<open>createMany\<close> are, up to order, the entries of the sorted
  array with the positions the loop assigned.
\<close>

lemma group_step_distinct:
  "group_step lbId proto m r = (Inr m', proto') \<Longrightarrow> distinct (map fst m) \<Longrightarrow> distinct (map fst m')"
  by (auto simp: group_step_def Let_def distinct_update split: jsvalue.splits slot.splits)

lemma group_results_distinct:
  "group_results lbId proto m rs = (Inr m', proto') \<Longrightarrow> distinct (map fst m)
     \<Longrightarrow> distinct (map fst m')"
proof (induction rs arbitrary: proto m)
  case Nil
  then show ?case by simp
next
  case (Cons r rs)
  from Cons.prems(1) obtain m1 proto1 where
    step: "group_step lbId proto m r = (Inr m1, proto1)"
    and rest: "group_results lbId proto1 m1 rs = (Inr m', proto')"
    by (auto split: prod.splits sum.splits)
  show ?case
    using Cons.IH [OF rest group_step_distinct [OF step Cons.prems(2)]] .
qed

lemma add_result_playerId: "playerId (add_result r e) = playerId e"
  by (simp add: add_result_def Let_def)

lemma grouped_entries_distinct:
  assumes grouped: "grouped_entries lbId proto rs = (Inr es, proto')"
  shows "distinct (map playerId es)"
proof -
  from grouped obtain m where m: "group_results lbId proto [] rs = (Inr m, proto')"
    and vals: "map Entry es = object_values m"
    by (rule grouped_entries_slots)
  have dist: "distinct (map fst m)"
    using group_results_distinct [OF m] by simp
  have key: "\<forall>k e. (k, Entry e) \<in> set m \<longrightarrow> playerId e = k"
    using group_results_entries [OF m, where P = "\<lambda>k e. playerId e = k"]
    by (simp add: add_result_playerId new_entry_def)
  obtain ps where ps: "object_values m = map snd ps" and perm: "mset ps = mset m"
    by (rule object_values_permutation)
  have set_ps: "set ps = set m"
    using perm by (rule mset_eq_setD)
  have "map snd ps = map Entry es"
    using vals ps by simp
  then have len: "length ps = length es" and nth: "\<And>i. i < length ps \<Longrightarrow> snd (ps ! i) = Entry (es ! i)"
    by (auto dest: map_eq_imp_length_eq simp: list_eq_iff_nth_eq)
  have "map playerId es = map fst ps"
  proof (rule nth_equalityI)
    show "length (map playerId es) = length (map fst ps)"
      using len by simp
  next
    fix i assume "i < length (map playerId es)"
    then have i: "i < length ps" using len by simp
    then have "(fst (ps ! i), Entry (es ! i)) \<in> set m"
      using nth [OF i] set_ps nth_mem [OF i] by (metis prod.collapse)
    then show "map playerId es ! i = map fst ps ! i"
      using key i len by simp
  qed
  moreover have "mset (map fst ps) = mset (map fst m)"
    using perm by simp
  ultimately show ?thesis
    using dist mset_eq_imp_distinct_iff by metis
qed

lemma rank_loop_nth:
  "i < length xs \<Longrightarrow>
     rank_loop c p r xs ! i = (xs ! i)\<lparr>position := position (rank_loop c p r xs ! i)\<rparr>"
proof (induction xs arbitrary: c p r i)
  case Nil
  then show ?case by simp
next
  case (Cons x xs)
  then show ?case by (cases i) auto
qed

lemma find_distinct_key:
  "distinct (map f xs) \<Longrightarrow> x \<in> set xs \<Longrightarrow> find (\<lambda>y. f y = f x) xs = Some x"
  by (induction xs) (auto simp: image_iff)

lemma written_entries_permutation:
  assumes "distinct (map playerId es)"
  shows "mset (written_entries es) = mset (rank_leaderboard es)"
proof -
  let ?sorted = "sort_leaderboard es"
  let ?ranked = "rank_leaderboard es"
  let ?g = "\<lambda>e. e\<lparr>position := rank_of ?ranked (playerId e)\<rparr>"
  have ids: "map playerId ?ranked = map playerId ?sorted"
    unfolding rank_leaderboard_def by (rule rank_loop_map) simp
  have "mset (map playerId ?sorted) = mset (map playerId es)"
    by (simp add: sort_leaderboard_def)
  then have dist: "distinct (map playerId ?ranked)"
    using assms ids mset_eq_imp_distinct_iff by metis
  have len: "length ?ranked = length ?sorted"
    by (simp add: rank_leaderboard_def length_rank_loop)
  have "?ranked = map ?g ?sorted"
  proof (rule nth_equalityI)
    show "length ?ranked = length (map ?g ?sorted)"
      using len by simp
  next
    fix i assume i: "i < length ?ranked"
    then have i': "i < length ?sorted" using len by simp
    have same: "playerId (?ranked ! i) = playerId (?sorted ! i)"
      using ids i i' by (metis nth_map)
    have "find (\<lambda>y. playerId y = playerId (?ranked ! i)) ?ranked = Some (?ranked ! i)"
      using find_distinct_key [OF dist nth_mem [OF i]] .
    then have "rank_of ?ranked (playerId (?sorted ! i)) = position (?ranked ! i)"
      by (simp add: rank_of_def same)
    then show "?ranked ! i = map ?g ?sorted ! i"
      using rank_loop_nth [OF i', of 1 None 0] i' by (simp add: rank_leaderboard_def)
  qed
  then have "mset ?ranked = image_mset ?g (mset ?sorted)"
    by (metis mset_map)
  also have "\<dots> = image_mset ?g (mset es)"
    by (simp add: sort_leaderboard_def)
  finally show ?thesis
    by (simp add: written_entries_def)
qed

lemma updateLeaderboard_writes:
  assumes "findUniqueCup w cupId = Some cup" and "leaderboard_of w cup = Some leaderboard"
    and "aggregate (lb_id leaderboard) (objectPrototype w) (findManyResults w cup)
           = (Inr ranked, proto')"
    and "\<not> polluted proto'"
  shows "\<exists>rows. leaderboardEntries (snd (updateLeaderboard w cupId))
             = filter (\<lambda>e. leaderboardId e \<noteq> lb_id leaderboard) (leaderboardEntries w) @ rows
           \<and> mset rows = mset ranked \<and> fst (updateLeaderboard w cupId) = Inr ()"
proof -
  let ?lb = "lb_id leaderboard"
  from assms(3) have out: "fst (aggregate ?lb (objectPrototype w) (findManyResults w cup)) = Inr ranked"
    by simp
  from out obtain es where
    grouped: "fst (grouped_entries ?lb (objectPrototype w) (findManyResults w cup)) = Inr es"
    and ranked: "ranked = rank_leaderboard es"
    by (rule aggregate_Inr)
  have g: "grouped_entries ?lb (objectPrototype w) (findManyResults w cup) = (Inr es, proto')"
    using assms(3) grouped
    by (cases "grouped_entries ?lb (objectPrototype w) (findManyResults w cup)")
      (auto simp: aggregate_def split: sum.splits)
  have "mset (written_entries es) = mset ranked"
    unfolding ranked using grouped_entries_distinct [OF g] by (rule written_entries_permutation)
  moreover have "updateLeaderboard w cupId
      = (Inr (), (deleteManyEntries ?lb w)
           \<lparr>objectPrototype := proto',
             leaderboardEntries := leaderboardEntries (deleteManyEntries ?lb w) @ written_entries es\<rparr>)"
    using assms(1,2,4) g
    by (simp add: updateLeaderboard_def Let_def deleteManyEntries_def createManyEntries_def)
  ultimately show ?thesis
    by (simp add: deleteManyEntries_def)
qed

section \<open>Running the aggregation again\<close>

text \<open>
  A run can only add to \<^verbatim>\<open>Object.prototype\<close>, and a second pass over the same
  results from the prototype the first pass has left adds nothing more.
\<close>

lemma proto_le_refl: "proto_le p p"
  by (simp add: proto_le_def)

lemma proto_le_trans: "proto_le p q \<Longrightarrow> proto_le q r \<Longrightarrow> proto_le p r"
  by (simp add: proto_le_def)

lemma proto_le_unpolluted: "proto_le p q \<Longrightarrow> \<not> polluted q \<Longrightarrow> p = q"
  by (simp add: proto_le_def polluted_def)

lemma group_step_mono: "proto_le proto (snd (group_step lbId proto m r))"
  by (auto simp: group_step_def Let_def proto_le_def split: jsvalue.splits slot.splits)

lemma group_results_mono: "proto_le proto (snd (group_results lbId proto m rs))"
proof (induction rs arbitrary: proto m)
  case Nil
  then show ?case by (simp add: proto_le_refl)
next
  case (Cons r rs)
  obtain res proto1 where step: "group_step lbId proto m r = (res, proto1)"
    by (cases "group_step lbId proto m r")
  then have le: "proto_le proto proto1"
    using group_step_mono [of proto lbId m r] by simp
  show ?case
  proof (cases res)
    case (Inl err)
    then show ?thesis using step le by simp
  next
    case (Inr m1)
    have "proto_le proto (snd (group_results lbId proto1 m1 rs))"
      using le Cons.IH [of proto1 m1] by (rule proto_le_trans)
    then show ?thesis using step Inr by simp
  qed
qed

lemma get_property_le:
  "proto_le p q \<Longrightarrow> get_property q m key \<noteq> Primitive
     \<Longrightarrow> get_property p m key = get_property q m key"
proof (cases "map_of m key")
  case (Some s)
  then show ?thesis by (simp add: get_property_def)
next
  case None
  assume le: "proto_le p q" and np: "get_property q m key \<noteq> Primitive"
  show ?thesis
  proof (cases "key = ''__proto__'' \<or> key \<in> set prototype_functions")
    case True
    then show ?thesis using None by (auto simp: get_property_def)
  next
    case False
    have q: "\<not> (key = ''points'' \<and> proto_points q)" "\<not> (key = ''qualified'' \<and> proto_qualified q)"
      using np None False by (auto simp: get_property_def)
    then have "\<not> (key = ''points'' \<and> proto_points p)" "\<not> (key = ''qualified'' \<and> proto_qualified p)"
      using le by (auto simp: proto_le_def)
    then show ?thesis
      using q None False by (simp add: get_property_def)
  qed
qed

lemma group_step_le:
  assumes le: "proto_le p q"
    and np: "get_property q m (QualifierResult.playerId r) \<noteq> Primitive"
  shows "\<exists>m1 p1 q1. group_step lbId p m r = (Inr m1, p1) \<and> group_step lbId q m r = (Inr m1, q1)
           \<and> (proto_le p1 q \<longrightarrow> q1 = q)"
proof -
  let ?key = "QualifierResult.playerId r"
  have same: "get_property p m ?key = get_property q m ?key"
    using le np by (rule get_property_le)
  show ?thesis
  proof (cases "get_property q m ?key")
    case Undefined
    then show ?thesis using same by (simp add: group_step_def Let_def)
  next
    case (Object s)
    then show ?thesis using same by (cases s) (simp_all add: group_step_def Let_def)
  next
    case PrototypeObject
    let ?p1 = "p\<lparr>proto_points := True, proto_qualified := proto_qualified p \<or> isQualified r\<rparr>"
    let ?q1 = "q\<lparr>proto_points := True, proto_qualified := proto_qualified q \<or> isQualified r\<rparr>"
    have sp: "group_step lbId p m r = (Inr m, ?p1)"
      using PrototypeObject same by (simp add: group_step_def Let_def)
    have sq: "group_step lbId q m r = (Inr m, ?q1)"
      using PrototypeObject by (simp add: group_step_def Let_def)
    have "?q1 = q" if "proto_le ?p1 q"
    proof -
      from that have "proto_points q" "isQualified r \<longrightarrow> proto_qualified q"
        by (simp_all add: proto_le_def)
      then show ?thesis by (cases q) auto
    qed
    then show ?thesis using sp sq by blast
  next
    case Primitive
    then show ?thesis using np by simp
  qed
qed

lemma group_results_settled:
  "proto_le p q \<Longrightarrow> proto_le (snd (group_results lbId p m rs)) q
     \<Longrightarrow> snd (group_results lbId q m rs) = q"
proof (induction rs arbitrary: p q m)
  case Nil
  then show ?case by simp
next
  case (Cons r rs)
  let ?key = "QualifierResult.playerId r"
  show ?case
  proof (cases "get_property q m ?key = Primitive")
    case True
    then show ?thesis by (simp add: group_step_def Let_def)
  next
    case False
    from group_step_le [OF Cons.prems(1) False, of lbId] obtain m1 p1 q1 where
      sp: "group_step lbId p m r = (Inr m1, p1)"
      and sq: "group_step lbId q m r = (Inr m1, q1)"
      and settle: "proto_le p1 q \<longrightarrow> q1 = q"
      by blast
    have final: "proto_le (snd (group_results lbId p1 m1 rs)) q"
      using Cons.prems(2) sp by simp
    have "proto_le p1 (snd (group_results lbId p1 m1 rs))"
      by (rule group_results_mono)
    then have p1q: "proto_le p1 q"
      using final by (rule proto_le_trans)
    then have "q1 = q"
      using settle by simp
    then show ?thesis
      using sq Cons.IH [OF p1q final] by simp
  qed
qed

lemma snd_grouped_entries:
  "snd (grouped_entries lbId proto rs) = snd (group_results lbId proto [] rs)"
  by (auto simp: grouped_entries_def split: prod.splits sum.splits option.splits)

lemma grouped_entries_mono: "proto_le proto (snd (grouped_entries lbId proto rs))"
  by (simp add: snd_grouped_entries group_results_mono)

lemma grouped_entries_settled:
  "snd (grouped_entries lbId (snd (grouped_entries lbId proto rs)) rs)
     = snd (grouped_entries lbId proto rs)"
  unfolding snd_grouped_entries
  by (rule group_results_settled [OF group_results_mono proto_le_refl])

lemma add_result_leaderboardId: "leaderboardId (add_result r e) = leaderboardId e"
  by (simp add: add_result_def Let_def)

lemma grouped_entries_leaderboardId:
  assumes "grouped_entries lbId proto rs = (Inr es, proto')"
  shows "\<forall>e \<in> set es. leaderboardId e = lbId"
  using grouped_entries_all [where P = "\<lambda>k e. leaderboardId e = lbId", OF assms]
  by (simp add: add_result_leaderboardId new_entry_def)

lemma written_entries_leaderboardId:
  "\<forall>e \<in> set es. leaderboardId e = lbId \<Longrightarrow>
     filter (\<lambda>entry. leaderboardId entry \<noteq> lbId) (written_entries es) = []"
  by (simp add: written_entries_def filter_empty_conv)

lemma updateLeaderboard_run:
  assumes "findUniqueCup w cupId = Some cup" and "leaderboard_of w cup = Some leaderboard"
    and "grouped_entries (lb_id leaderboard) (objectPrototype w) (findManyResults w cup) = (res, proto')"
  shows "updateLeaderboard w cupId =
     (case res of
        Inl err \<Rightarrow> (Inl err, (deleteManyEntries (lb_id leaderboard) w)\<lparr>objectPrototype := proto'\<rparr>)
      | Inr es \<Rightarrow>
          if polluted proto'
          then (Inl ClientError, (deleteManyEntries (lb_id leaderboard) w)\<lparr>objectPrototype := proto'\<rparr>)
          else (Inr (), (deleteManyEntries (lb_id leaderboard) w)
                  \<lparr>objectPrototype := proto',
                    leaderboardEntries :=
                      leaderboardEntries (deleteManyEntries (lb_id leaderboard) w)
                      @ written_entries es\<rparr>))"
  using assms
  by (simp add: updateLeaderboard_def Let_def deleteManyEntries_def createManyEntries_def
      split: sum.splits)

text \<open>
  C8. Running \<open>updateLeaderboard\<close> a second time on unchanged results leaves the stored
  state, and with it the leaderboard entries (players, points, qualified flags, ranks), as
  the first run left it, and the second run succeeds exactly when the first did. A run that
  has written to \<^verbatim>\<open>Object.prototype\<close> ends in an error with the rows of the
  leaderboard deleted, and so does the run after it.
\<close>

theorem second_run_repeats:
  "snd (updateLeaderboard (snd (updateLeaderboard w cupId)) cupId) = snd (updateLeaderboard w cupId)
   \<and> ((fst (updateLeaderboard (snd (updateLeaderboard w cupId)) cupId) = Inr ())
        = (fst (updateLeaderboard w cupId) = Inr ()))"
proof (cases "findUniqueCup w cupId")
  case None
  then show ?thesis by (simp add: updateLeaderboard_def)
next
  case (Some cup)
  show ?thesis
  proof (cases "leaderboard_of w cup")
    case None
    with Some show ?thesis by (simp add: updateLeaderboard_def)
  next
    case lb: (Some leaderboard)
    let ?lb = "lb_id leaderboard"
    let ?all = "findManyResults w cup"
    let ?p = "objectPrototype w"
    obtain res p' where g: "grouped_entries ?lb ?p ?all = (res, p')"
      by (cases "grouped_entries ?lb ?p ?all")
    let ?W = "(deleteManyEntries ?lb w)\<lparr>objectPrototype := p'\<rparr>"
    have p': "p' = snd (grouped_entries ?lb ?p ?all)"
      using g by simp
    have le: "proto_le ?p p'"
      unfolding p' by (rule grouped_entries_mono)
    have settled: "snd (grouped_entries ?lb p' ?all) = p'"
      unfolding p' by (rule grouped_entries_settled)
    have W: "findUniqueCup ?W cupId = Some cup" "leaderboard_of ?W cup = Some leaderboard"
      "findManyResults ?W cup = ?all" "objectPrototype ?W = p'"
      "(deleteManyEntries ?lb ?W)\<lparr>objectPrototype := p'\<rparr> = ?W"
      using Some lb
      by (simp_all add: findUniqueCup_def leaderboard_of_def findManyResults_def
          deleteManyEntries_def)
    note run1 = updateLeaderboard_run [OF Some lb g]
    show ?thesis
    proof (cases "polluted p'")
      case True
      then obtain e1 where r1: "updateLeaderboard w cupId = (Inl e1, ?W)"
        using run1 by (cases res) auto
      obtain res2 where g2: "grouped_entries ?lb (objectPrototype ?W) (findManyResults ?W cup) = (res2, p')"
        using settled W(3,4) by (cases "grouped_entries ?lb p' ?all") auto
      have "\<exists>e2. updateLeaderboard ?W cupId = (Inl e2, ?W)"
        using updateLeaderboard_run [OF W(1,2) g2] True W(5) by (cases res2) auto
      then show ?thesis using r1 by auto
    next
      case False
      then have same: "p' = ?p"
        using proto_le_unpolluted [OF le] by simp
      show ?thesis
      proof (cases res)
        case (Inl err)
        then have r1: "updateLeaderboard w cupId = (Inl err, ?W)"
          using run1 by simp
        have g2: "grouped_entries ?lb (objectPrototype ?W) (findManyResults ?W cup) = (Inl err, p')"
          using g Inl same W(3,4) by simp
        have "updateLeaderboard ?W cupId = (Inl err, ?W)"
          using updateLeaderboard_run [OF W(1,2) g2] W(5) by simp
        then show ?thesis using r1 by simp
      next
        case (Inr es)
        let ?W2 = "?W\<lparr>leaderboardEntries := leaderboardEntries ?W @ written_entries es\<rparr>"
        have r1: "updateLeaderboard w cupId = (Inr (), ?W2)"
          using run1 Inr False by (simp add: deleteManyEntries_def)
        have own: "\<forall>e \<in> set es. leaderboardId e = ?lb"
          using g Inr grouped_entries_leaderboardId by blast
        have W2: "findUniqueCup ?W2 cupId = Some cup" "leaderboard_of ?W2 cup = Some leaderboard"
          "findManyResults ?W2 cup = ?all" "objectPrototype ?W2 = p'"
          "(deleteManyEntries ?lb ?W2)\<lparr>objectPrototype := p'\<rparr> = ?W"
          using Some lb written_entries_leaderboardId [OF own]
          by (simp_all add: findUniqueCup_def leaderboard_of_def findManyResults_def
              deleteManyEntries_def)
        have g2: "grouped_entries ?lb (objectPrototype ?W2) (findManyResults ?W2 cup) = (Inr es, p')"
          using g Inr same W2(3,4) by simp
        have "updateLeaderboard ?W2 cupId = (Inr (), ?W2)"
          using updateLeaderboard_run [OF W2(1,2) g2] False
          by (simp add: deleteManyEntries_def written_entries_leaderboardId [OF own])
        then show ?thesis using r1 by simp
      qed
    qed
  qed
qed

theorem second_run_repeats_witness:
  "updateLeaderboard scenario_world 1
     = (Inr (), scenario_world
          \<lparr>leaderboardEntries :=
             [\<lparr>points = 50000, qualified' = True, leaderboardId = 7, position = 1, playerId = ''P1''\<rparr>,
              \<lparr>points = 15000, qualified' = False, leaderboardId = 7, position = 2, playerId = ''P2''\<rparr>,
              \<lparr>points = 7500, qualified' = False, leaderboardId = 7, position = 3, playerId = ''P3''\<rparr>]\<rparr>)
   \<and> snd (updateLeaderboard (snd (updateLeaderboard scenario_world 1)) 1)
     = snd (updateLeaderboard scenario_world 1)
   \<and> fst (updateLeaderboard (snd (updateLeaderboard scenario_world 1)) 1) = Inr ()
   \<and> updateLeaderboard pollution_world 1
     = (Inl ClientError, pollution_world
          \<lparr>objectPrototype := \<lparr>proto_points = True, proto_qualified = False\<rparr>\<rparr>)
   \<and> snd (updateLeaderboard (snd (updateLeaderboard pollution_world 1)) 1)
     = snd (updateLeaderboard pollution_world 1)"
proof -
  have a: "updateLeaderboard scenario_world 1
     = (Inr (), scenario_world
          \<lparr>leaderboardEntries :=
             [\<lparr>points = 50000, qualified' = True, leaderboardId = 7, position = 1, playerId = ''P1''\<rparr>,
              \<lparr>points = 15000, qualified' = False, leaderboardId = 7, position = 2, playerId = ''P2''\<rparr>,
              \<lparr>points = 7500, qualified' = False, leaderboardId = 7, position = 3, playerId = ''P3''\<rparr>]\<rparr>)"
    by code_simp
  have b: "updateLeaderboard pollution_world 1
     = (Inl ClientError, pollution_world
          \<lparr>objectPrototype := \<lparr>proto_points = True, proto_qualified = False\<rparr>\<rparr>)"
    by code_simp
  show ?thesis
    using a b second_run_repeats [of scenario_world 1] second_run_repeats [of pollution_world 1]
    by simp
qed

end
